theory Spec2Isabelle
  imports Complex_Main "HOL-Library.Word" "HOL-Library.Multiset"
begin

section \<open>Audio buffers\<close>

text \<open>
  The Web Audio \<open>AudioBuffer\<close> as the two components use it: a channel count, a number of
  sample frames per channel (\<open>length\<close> in the source), a sample rate and the accessor
  \<open>getChannelData(i)[pos]\<close>.  Samples and times are JavaScript numbers; they are modelled
  as exact reals.
\<close>

record AudioBuffer =
  numberOfChannels :: nat
  length_ab :: nat
  sampleRate_ab :: nat
  getChannelData :: "nat \<Rightarrow> nat \<Rightarrow> real"

definition duration :: "AudioBuffer \<Rightarrow> real" where
  "duration b = real (length_ab b) / real (sampleRate_ab b)"

section \<open>LiveMode: state of the live session\<close>

type_synonym obj = nat

text \<open>An \<open>AudioBufferSourceNode\<close>: its buffer, the time given to \<open>start\<close>, and whether
  \<open>stop\<close> has been called on it.\<close>

record source_node =
  buffer :: AudioBuffer
  startedAt :: "real option"
  stopped :: bool

datatype device_call = StopTracks obj | Disconnect obj | CloseContext obj

text \<open>
  The component's \<open>useState\<close> cells and \<open>useRef\<close> cells.  Source nodes are objects with
  identity: \<open>nodes\<close> is the store of every node created so far (a node's identity is its
  index) and \<open>sources\<close> is \<open>sourcesRef.current\<close>, the insertion-ordered set of the
  identities currently registered.  \<open>calls\<close> records the calls made on device objects.
\<close>

record live_state =
  connected :: bool
  speaking :: bool
  aiSpeaking :: bool
  logs :: "string list"
  inputAudioContextRef :: "obj option"
  outputAudioContextRef :: "obj option"
  sessionRef :: "obj option"
  streamRef :: "obj option"
  processorRef :: "obj option"
  sourceRef :: "obj option"
  nextStartTime :: real
  sources :: "nat list"
  nodes :: "source_node list"
  calls :: "device_call list"

record message =
  inlineData :: "string option"
  interrupted :: bool

definition log_msg :: "string \<Rightarrow> live_state \<Rightarrow> live_state" where
  "log_msg m s = s\<lparr>logs := drop (length (logs s) - 4) (logs s) @ [m]\<rparr>"

definition stop_node :: "nat \<Rightarrow> source_node list \<Rightarrow> source_node list" where
  "stop_node i ns = (if i < length ns then ns[i := (ns ! i)\<lparr>stopped := True\<rparr>] else ns)"

definition stop_each :: "nat list \<Rightarrow> source_node list \<Rightarrow> source_node list" where
  "stop_each ids ns = fold stop_node ids ns"

definition set_add :: "nat \<Rightarrow> nat list \<Rightarrow> nat list" where
  "set_add x xs = (if x \<in> set xs then xs else xs @ [x])"

definition set_delete :: "nat \<Rightarrow> nat list \<Rightarrow> nat list" where
  "set_delete x xs = filter (\<lambda>y. y \<noteq> x) xs"

subsection \<open>stopAll\<close>

definition release :: "(obj \<Rightarrow> device_call) \<Rightarrow> obj option \<Rightarrow> device_call list" where
  "release c r = (case r of None \<Rightarrow> [] | Some x \<Rightarrow> [c x])"

definition stopAll :: "live_state \<Rightarrow> live_state" where
  "stopAll s =
     s\<lparr>calls := calls s @ release StopTracks (streamRef s) @ release Disconnect (processorRef s)
                 @ release Disconnect (sourceRef s) @ release CloseContext (inputAudioContextRef s)
                 @ release CloseContext (outputAudioContextRef s),
       streamRef := None,
       processorRef := None,
       sourceRef := None,
       inputAudioContextRef := None,
       nodes := stop_each (sources s) (nodes s),
       sources := [],
       outputAudioContextRef := None,
       sessionRef := None,
       connected := False,
       speaking := False,
       aiSpeaking := False\<rparr>"

subsection \<open>onmessage\<close>

text \<open>\<open>if (base64Audio)\<close>: the optional chain gave a string and the string is not empty.\<close>

definition has_audio :: "message \<Rightarrow> bool" where
  "has_audio msg = (case inlineData msg of None \<Rightarrow> False | Some d \<Rightarrow> d \<noteq> [])"

text \<open>The block \<open>if (msg.serverContent?.interrupted) { ... }\<close>.\<close>

definition onInterrupt :: "live_state \<Rightarrow> live_state" where
  "onInterrupt s =
     (let s1 = log_msg ''Interrupted!'' s
      in s1\<lparr>nodes := stop_each (sources s1) (nodes s1),
            sources := [],
            nextStartTime := 0,
            aiSpeaking := False\<rparr>)"

definition handle_interruption :: "message \<Rightarrow> live_state \<Rightarrow> live_state" where
  "handle_interruption msg s = (if interrupted msg then onInterrupt s else s)"

text \<open>
  The handler is an \<open>async\<close> function with one \<open>await\<close>, on the decode of the chunk.
  \<open>onmessage_begin\<close> is the part that runs when the message arrives, up to the \<open>await\<close>;
  its boolean result says whether the handler is now suspended on the decode.
  \<open>now\<close> is the value of \<open>outputCtx.currentTime\<close> read at that moment.
\<close>

definition onmessage_begin :: "real \<Rightarrow> message \<Rightarrow> live_state \<Rightarrow> live_state \<times> bool" where
  "onmessage_begin now msg s =
     (if outputAudioContextRef s = None then (s, False)
      else if has_audio msg
        then (s\<lparr>aiSpeaking := True, nextStartTime := max (nextStartTime s) now\<rparr>, True)
        else (handle_interruption msg s, False))"

text \<open>
  \<open>onmessage_resume\<close> is the rest of the handler, run when the decode has produced
  \<open>audioBuffer\<close>: create the source node, start it at the cursor, advance the cursor,
  register the node, then the interruption block.
\<close>

definition onmessage_resume :: "AudioBuffer \<Rightarrow> message \<Rightarrow> live_state \<Rightarrow> live_state" where
  "onmessage_resume audioBuffer msg s =
     (let source = length (nodes s);
          s1 = s\<lparr>nodes := nodes s @
                  [\<lparr>buffer = audioBuffer, startedAt = Some (nextStartTime s), stopped = False\<rparr>]\<rparr>;
          s2 = s1\<lparr>nextStartTime := nextStartTime s1 + duration audioBuffer\<rparr>;
          s3 = s2\<lparr>sources := set_add source (sources s2)\<rparr>
      in handle_interruption msg s3)"

text \<open>The \<open>ended\<close> listener of the node \<open>source\<close>.\<close>

definition on_ended :: "nat \<Rightarrow> live_state \<Rightarrow> live_state" where
  "on_ended source s =
     (let s1 = s\<lparr>sources := set_delete source (sources s)\<rparr>
      in if length (sources s1) = 0 then s1\<lparr>aiSpeaking := False\<rparr> else s1)"

text \<open>Every registered identity is that of a node that has been created.\<close>

definition ids_valid :: "live_state \<Rightarrow> bool" where
  "ids_valid s = (\<forall>i \<in> set (sources s). i < length (nodes s))"

text \<open>
  The handler run to completion, the decode finishing before anything else happens.
  \<open>decodeAudioData\<close> and \<open>decodeBase64\<close> live in \<open>utils/audioUtils\<close>; their composition
  is the parameter \<open>decode\<close>.
\<close>

definition onmessage :: "(string \<Rightarrow> AudioBuffer) \<Rightarrow> real \<Rightarrow> message \<Rightarrow> live_state \<Rightarrow> live_state" where
  "onmessage decode now msg s =
     (case onmessage_begin now msg s of
        (s1, False) \<Rightarrow> s1
      | (s1, True) \<Rightarrow> onmessage_resume (decode (the (inlineData msg))) msg s1)"

text \<open>A sequence of messages, each with the clock reading at its arrival.\<close>

fun process :: "(string \<Rightarrow> AudioBuffer) \<Rightarrow> (real \<times> message) list \<Rightarrow> live_state \<Rightarrow> live_state" where
  "process decode [] s = s"
| "process decode ((now, msg) # ms) s = process decode ms (onmessage decode now msg s)"

definition chunk :: "string \<Rightarrow> message" where
  "chunk d = \<lparr>inlineData = Some d, interrupted = False\<rparr>"

text \<open>
  \<open>startSession\<close> on its success path (API key present, microphone granted, connection
  made): the objects it creates are parameters.  \<open>onopen\<close> is the callback that attaches
  the capture chain.
\<close>

definition startSession :: "obj \<Rightarrow> obj \<Rightarrow> obj \<Rightarrow> obj \<Rightarrow> live_state \<Rightarrow> live_state" where
  "startSession inCtx outCtx stream session s =
     (let s1 = log_msg ''Initializing audio contexts...'' (s\<lparr>connected := True\<rparr>);
          s2 = s1\<lparr>inputAudioContextRef := Some inCtx, outputAudioContextRef := Some outCtx\<rparr>;
          s3 = (log_msg ''Requesting microphone...'' s2)\<lparr>streamRef := Some stream\<rparr>;
          s4 = log_msg ''Connecting to Gemini Live...'' s3
      in s4\<lparr>sessionRef := Some session\<rparr>)"

definition onopen :: "obj \<Rightarrow> obj \<Rightarrow> live_state \<Rightarrow> live_state" where
  "onopen source processor s =
     (let s1 = log_msg ''Connected! Start talking.'' s
      in if inputAudioContextRef s1 = None then s1
         else s1\<lparr>sourceRef := Some source, processorRef := Some processor\<rparr>)"

definition init_live :: live_state where
  "init_live = \<lparr>connected = False, speaking = False, aiSpeaking = False, logs = [],
     inputAudioContextRef = None, outputAudioContextRef = None, sessionRef = None,
     streamRef = None, processorRef = None, sourceRef = None,
     nextStartTime = 0, sources = [], nodes = [], calls = []\<rparr>"

subsection \<open>The handler on the event loop\<close>

text \<open>
  Between the two halves of the handler other callbacks can run.  An event is the arrival
  of a message (with the clock reading then) or the completion of the decode that the
  handler of the \<open>k\<close>-th arrival is suspended on.  \<open>suspended\<close> holds the handlers waiting
  at their \<open>await\<close>, by arrival number.
\<close>

datatype event = Arrive real message | Decoded nat

record session =
  live :: live_state
  suspended :: "(nat \<times> message) list"
  arrived :: nat

fun step :: "(string \<Rightarrow> AudioBuffer) \<Rightarrow> event \<Rightarrow> session \<Rightarrow> session" where
  "step decode (Arrive now msg) \<sigma> =
     (case onmessage_begin now msg (live \<sigma>) of
        (s1, True) \<Rightarrow> \<sigma>\<lparr>live := s1, suspended := suspended \<sigma> @ [(arrived \<sigma>, msg)],
                           arrived := Suc (arrived \<sigma>)\<rparr>
      | (s1, False) \<Rightarrow> \<sigma>\<lparr>live := s1, arrived := Suc (arrived \<sigma>)\<rparr>)"
| "step decode (Decoded k) \<sigma> =
     (case map_of (suspended \<sigma>) k of
        None \<Rightarrow> \<sigma>
      | Some msg \<Rightarrow>
          \<sigma>\<lparr>live := onmessage_resume (decode (the (inlineData msg))) msg (live \<sigma>),
            suspended := filter (\<lambda>p. fst p \<noteq> k) (suspended \<sigma>)\<rparr>)"

fun run_events :: "(string \<Rightarrow> AudioBuffer) \<Rightarrow> event list \<Rightarrow> session \<Rightarrow> session" where
  "run_events decode [] \<sigma> = \<sigma>"
| "run_events decode (e # es) \<sigma> = run_events decode es (step decode e \<sigma>)"

text \<open>The trace in which every decode completes before the next message arrives.\<close>

fun one_at_a_time :: "nat \<Rightarrow> (real \<times> message) list \<Rightarrow> event list" where
  "one_at_a_time n [] = []"
| "one_at_a_time n ((now, msg) # ms) = Arrive now msg # Decoded n # one_at_a_time (Suc n) ms"

subsection \<open>Schedules without interruption\<close>








section \<open>LiveMode: capture and the deferred session handle\<close>

text \<open>
  \<open>sessionPromise\<close> is a promise resolved by \<open>resolveSession\<close>.  While it is pending it
  holds its \<open>then\<close> callbacks in registration order; each callback of the capture
  pipeline sends the blob it captured, so a callback is represented by that blob.
  \<open>sent\<close> is the sequence of \<open>session.sendRealtimeInput\<close> calls made so far.
  \<open>createPcmBlob\<close> lives in \<open>utils/audioUtils\<close> and is a parameter.
\<close>

datatype 'c promise = Pending "'c list" | Resolved

record 'c transport =
  sessionPromise :: "'c promise"
  sent :: "'c list"

definition then_send :: "'c \<Rightarrow> 'c transport \<Rightarrow> 'c transport" where
  "then_send pcmBlob t =
     (case sessionPromise t of
        Pending callbacks \<Rightarrow> t\<lparr>sessionPromise := Pending (callbacks @ [pcmBlob])\<rparr>
      | Resolved \<Rightarrow> t\<lparr>sent := sent t @ [pcmBlob]\<rparr>)"

definition resolveSession :: "'c transport \<Rightarrow> 'c transport" where
  "resolveSession t =
     (case sessionPromise t of
        Pending callbacks \<Rightarrow> \<lparr>sessionPromise = Resolved, sent = sent t @ callbacks\<rparr>
      | Resolved \<Rightarrow> t)"

definition rms :: "real list \<Rightarrow> real" where
  "rms inputData = sqrt (foldl (\<lambda>sum x. sum + x * x) 0 inputData / real (length inputData))"

definition onaudioprocess ::
  "(real list \<Rightarrow> 'c) \<Rightarrow> real list \<Rightarrow> live_state \<times> 'c transport \<Rightarrow> live_state \<times> 'c transport" where
  "onaudioprocess createPcmBlob inputData st =
     (case st of (s, t) \<Rightarrow>
        (s\<lparr>speaking := (rms inputData > 2 / 100)\<rparr>, then_send (createPcmBlob inputData) t))"

datatype capture_event = Frame "real list" | ResolveSession

fun capture_step ::
  "(real list \<Rightarrow> 'c) \<Rightarrow> capture_event \<Rightarrow> live_state \<times> 'c transport \<Rightarrow> live_state \<times> 'c transport" where
  "capture_step createPcmBlob (Frame inputData) st = onaudioprocess createPcmBlob inputData st"
| "capture_step createPcmBlob ResolveSession st = (fst st, resolveSession (snd st))"

fun capture_run ::
  "(real list \<Rightarrow> 'c) \<Rightarrow> capture_event list \<Rightarrow> live_state \<times> 'c transport \<Rightarrow> live_state \<times> 'c transport" where
  "capture_run createPcmBlob [] st = st"
| "capture_run createPcmBlob (e # es) st = capture_run createPcmBlob es (capture_step createPcmBlob e st)"

definition new_transport :: "'c transport" where
  "new_transport = \<lparr>sessionPromise = Pending [], sent = []\<rparr>"

text \<open>Every blob handed to the transport so far: those sent and those still waiting.\<close>

definition handed :: "'c transport \<Rightarrow> 'c list" where
  "handed t = (case sessionPromise t of Pending callbacks \<Rightarrow> sent t @ callbacks | Resolved \<Rightarrow> sent t)"

section \<open>TTSMode: bufferToWav\<close>

type_synonym byte = "8 word"

datatype js_error = RangeError | IndexSizeError

text \<open>The \<open>n\<close> low bytes of \<open>v\<close>, least significant first (\<open>littleEndian = true\<close>).\<close>

definition le_bytes :: "nat \<Rightarrow> nat \<Rightarrow> byte list" where
  "le_bytes n v = map (\<lambda>i. of_nat (v div 256 ^ i)) [0..<n]"

text \<open>A \<open>DataView\<close> write of the bytes \<open>bs\<close> at \<open>pos\<close>: outside the buffer it throws.\<close>

definition dataview_set :: "byte list \<Rightarrow> nat \<Rightarrow> byte list \<Rightarrow> js_error + byte list" where
  "dataview_set view pos bs =
     (if pos + length bs \<le> length view
      then Inr (take pos view @ bs @ drop (pos + length bs) view)
      else Inl RangeError)"

text \<open>The local helpers \<open>setUint16\<close> and \<open>setUint32\<close>: they write at the shared \<open>pos\<close> and
  advance it.  Their argument may read \<open>pos\<close>, as \<open>length - pos - 4\<close> does.\<close>

definition setUint16 :: "(nat \<Rightarrow> nat) \<Rightarrow> byte list \<times> nat \<Rightarrow> js_error + byte list \<times> nat" where
  "setUint16 data st =
     (case st of (view, pos) \<Rightarrow>
        (case dataview_set view pos (le_bytes 2 (data pos)) of
           Inl e \<Rightarrow> Inl e
         | Inr view' \<Rightarrow> Inr (view', pos + 2)))"

definition setUint32 :: "(nat \<Rightarrow> nat) \<Rightarrow> byte list \<times> nat \<Rightarrow> js_error + byte list \<times> nat" where
  "setUint32 data st =
     (case st of (view, pos) \<Rightarrow>
        (case dataview_set view pos (le_bytes 4 (data pos)) of
           Inl e \<Rightarrow> Inl e
         | Inr view' \<Rightarrow> Inr (view', pos + 4)))"

fun run_writes ::
  "(byte list \<times> nat \<Rightarrow> js_error + byte list \<times> nat) list \<Rightarrow> byte list \<times> nat
     \<Rightarrow> js_error + byte list \<times> nat" where
  "run_writes [] st = Inr st"
| "run_writes (w # ws) st = (case w st of Inl e \<Rightarrow> Inl e | Inr st' \<Rightarrow> run_writes ws st')"

definition writeHeader :: "nat \<Rightarrow> nat \<Rightarrow> nat \<Rightarrow> byte list \<times> nat \<Rightarrow> js_error + byte list \<times> nat" where
  "writeHeader numOfChan len rate st =
     run_writes
       [setUint32 (\<lambda>pos. 0x46464952),
        setUint32 (\<lambda>pos. len - 8),
        setUint32 (\<lambda>pos. 0x45564157),
        setUint32 (\<lambda>pos. 0x20746d66),
        setUint32 (\<lambda>pos. 16),
        setUint16 (\<lambda>pos. 1),
        setUint16 (\<lambda>pos. numOfChan),
        setUint32 (\<lambda>pos. rate),
        setUint32 (\<lambda>pos. rate * 2 * numOfChan),
        setUint16 (\<lambda>pos. numOfChan * 2),
        setUint16 (\<lambda>pos. 16),
        setUint32 (\<lambda>pos. 0x61746164),
        setUint32 (\<lambda>pos. len - pos - 4)] st"

text \<open>\<open>x|0\<close>: truncation towards zero, then reduction to a signed 32-bit integer.\<close>

definition trunc :: "real \<Rightarrow> int" where
  "trunc x = (if x < 0 then - \<lfloor>- x\<rfloor> else \<lfloor>x\<rfloor>)"

definition to_int32 :: "real \<Rightarrow> int" where
  "to_int32 x = (trunc x + 2147483648) mod 4294967296 - 2147483648"

text \<open>The two statements of the inner loop that compute the sample to write.\<close>

definition encode_sample :: "real \<Rightarrow> int" where
  "encode_sample x =
     (let sample = max (- 1) (min 1 x)
      in to_int32 (if 1 / 2 + sample < 0 then sample * 32768 else sample * 32767))"

text \<open>\<open>view.setInt16(44 + offset, sample, true)\<close>: the low 16 bits of the integer.\<close>

definition setInt16 :: "byte list \<Rightarrow> nat \<Rightarrow> int \<Rightarrow> js_error + byte list" where
  "setInt16 view byteOffset v = dataview_set view byteOffset (le_bytes 2 (nat (v mod 65536)))"

text \<open>The \<open>for\<close> loop over the channels, from channel \<open>i\<close>, for the frame index \<open>pos\<close>.\<close>

function write_channels ::
  "AudioBuffer \<Rightarrow> nat \<Rightarrow> nat \<Rightarrow> byte list \<times> nat \<Rightarrow> js_error + byte list \<times> nat" where
  "write_channels abuffer pos i (view, offset) =
     (if i < numberOfChannels abuffer
      then (case setInt16 view (44 + offset) (encode_sample (getChannelData abuffer i pos)) of
              Inl e \<Rightarrow> Inl e
            | Inr view' \<Rightarrow> write_channels abuffer pos (Suc i) (view', offset + 2))
      else Inr (view, offset))"
  by pat_completeness auto
termination
  by (relation "measure (\<lambda>(abuffer, pos, i, st). numberOfChannels abuffer - i)") auto

text \<open>The \<open>while (pos < abuffer.length)\<close> loop.  \<open>pos\<close> is the variable the header
  writers advanced.\<close>

function write_frames ::
  "AudioBuffer \<Rightarrow> nat \<Rightarrow> byte list \<times> nat \<Rightarrow> js_error + byte list \<times> nat" where
  "write_frames abuffer pos (view, offset) =
     (if pos < length_ab abuffer
      then (case write_channels abuffer pos 0 (view, offset) of
              Inl e \<Rightarrow> Inl e
            | Inr st \<Rightarrow> write_frames abuffer (Suc pos) st)
      else Inr (view, offset))"
  by pat_completeness auto
termination
  by (relation "measure (\<lambda>(abuffer, pos, st). length_ab abuffer - pos)") auto

text \<open>
  \<open>bufferToWav\<close>, returning the bytes of the blob.  \<open>abuffer.getChannelData(0)\<close> in the
  declarations throws on a buffer with no channel.
\<close>

definition bufferToWav :: "AudioBuffer \<Rightarrow> nat \<Rightarrow> js_error + byte list" where
  "bufferToWav abuffer rate =
     (let numOfChan = numberOfChannels abuffer;
          len = length_ab abuffer * numOfChan * 2 + 44;
          buffer = replicate len (0 :: byte)
      in if numOfChan = 0 then Inl IndexSizeError
         else (case writeHeader numOfChan len rate (buffer, 0) of
                 Inl e \<Rightarrow> Inl e
               | Inr (view, pos) \<Rightarrow>
                   (case write_frames abuffer pos (view, 0) of
                      Inl e \<Rightarrow> Inl e
                    | Inr (view', offset) \<Rightarrow> Inr view')))"

text \<open>Reading a header field back, as \<open>DataView.getUint16\<close> and \<open>getUint32\<close> with
  \<open>littleEndian = true\<close> do.\<close>

definition getUint16 :: "byte list \<Rightarrow> nat \<Rightarrow> nat" where
  "getUint16 bytes pos = unat (bytes ! pos) + 256 * unat (bytes ! (pos + 1))"

definition getUint32 :: "byte list \<Rightarrow> nat \<Rightarrow> nat" where
  "getUint32 bytes pos =
     unat (bytes ! pos) + 256 * unat (bytes ! (pos + 1)) + 65536 * unat (bytes ! (pos + 2))
       + 16777216 * unat (bytes ! (pos + 3))"

text \<open>
  Two devices of the proofs below: the writer state while the header is being written
  (the bytes written so far, followed by the zeros of the fresh buffer), and the 44 bytes
  the header writers produce.
\<close>

definition header_state :: "byte list \<Rightarrow> nat \<Rightarrow> byte list \<times> nat" where
  "header_state pre k = (pre @ replicate k 0, length pre)"

definition header_bytes :: "nat \<Rightarrow> nat \<Rightarrow> nat \<Rightarrow> byte list" where
  "header_bytes numOfChan len rate =
     le_bytes 4 0x46464952 @ le_bytes 4 (len - 8) @ le_bytes 4 0x45564157 @ le_bytes 4 0x20746d66
     @ le_bytes 4 16 @ le_bytes 2 1 @ le_bytes 2 numOfChan @ le_bytes 4 rate
     @ le_bytes 4 (rate * 2 * numOfChan) @ le_bytes 2 (numOfChan * 2) @ le_bytes 2 16
     @ le_bytes 4 0x61746164 @ le_bytes 4 (len - 44)"

text \<open>
  The encoding as the specification words it: clamp, scale a negative sample by 32768 and
  any other by 32767, truncate.
\<close>

definition spec_encodePCM16 :: "real \<Rightarrow> int" where
  "spec_encodePCM16 x =
     (let sample = max (- 1) (min 1 x)
      in trunc (if sample < 0 then sample * 32768 else sample * 32767))"

section \<open>TTSMode: generate and stop\<close>

datatype SALanguage = ENGLISH | ZULU | XHOSA | AFRIKAANS | SESOTHO | SETSWANA

fun lang_name :: "SALanguage \<Rightarrow> string" where
  "lang_name ENGLISH = ''English (South African)''"
| "lang_name ZULU = ''isiZulu''"
| "lang_name XHOSA = ''isiXhosa''"
| "lang_name AFRIKAANS = ''Afrikaans''"
| "lang_name SESOTHO = ''Sesotho''"
| "lang_name SETSWANA = ''Setswana''"

record OfflinePack =
  id_pack :: string
  language :: SALanguage
  localeCode :: string
  size_pack :: string
  downloaded :: bool

definition INITIAL_OFFLINE_PACKS :: "OfflinePack list" where
  "INITIAL_OFFLINE_PACKS =
     [\<lparr>id_pack = ''pack_en'', language = ENGLISH, localeCode = ''en-ZA'', size_pack = ''45 MB'', downloaded = True\<rparr>,
      \<lparr>id_pack = ''pack_af'', language = AFRIKAANS, localeCode = ''af-ZA'', size_pack = ''38 MB'', downloaded = False\<rparr>,
      \<lparr>id_pack = ''pack_zu'', language = ZULU, localeCode = ''zu-ZA'', size_pack = ''42 MB'', downloaded = False\<rparr>,
      \<lparr>id_pack = ''pack_xh'', language = XHOSA, localeCode = ''xh-ZA'', size_pack = ''40 MB'', downloaded = False\<rparr>,
      \<lparr>id_pack = ''pack_st'', language = SESOTHO, localeCode = ''st-ZA'', size_pack = ''35 MB'', downloaded = False\<rparr>,
      \<lparr>id_pack = ''pack_tn'', language = SETSWANA, localeCode = ''tn-ZA'', size_pack = ''36 MB'', downloaded = False\<rparr>]"

type_synonym js_string = "16 word list"

record utterance =
  text_utt :: js_string
  voice_utt :: "string option"
  rate_utt :: real
  pitch_utt :: real

text \<open>The calls made on \<open>window.speechSynthesis\<close>, in order.\<close>

datatype synth_call = Cancel | Speak utterance

record audio_element =
  paused :: bool
  currentTime :: real

text \<open>
  The component's state cells, the audio element behind \<open>audioRef\<close>, and what the
  component reads from its environment: the installed voices (by language tag) and whether
  \<open>process.env.API_KEY\<close> is set.
\<close>

record tts_state =
  text_input :: js_string
  selectedLang :: SALanguage
  loading :: bool
  error :: "string option"
  audioUrl :: "string option"
  showSettings :: bool
  isOfflineMode :: bool
  playbackSpeed :: real
  selectedVoiceId :: string
  showLangManager :: bool
  offlinePacks :: "OfflinePack list"
  isFloating :: bool
  autoSpeak :: bool
  isPlaying :: bool
  audioRef :: "audio_element option"
  speechSynthesis :: "synth_call list"
  voices :: "string list"
  apiKey :: bool

text \<open>
  The text is a JavaScript string, a sequence of 16-bit code units.
  \<open>!inputText.trim()\<close> holds when nothing is left once white space is trimmed; the white
  space of \<open>String.prototype.trim\<close> is the WhiteSpace and LineTerminator code points of
  ECMAScript: tab, line feed, vertical tab, form feed, carriage return, space, no-break
  space, U+1680, U+2000 to U+200A, the line and paragraph separators, U+202F, U+205F,
  U+3000 and the byte order mark U+FEFF.
\<close>

definition is_space :: "16 word \<Rightarrow> bool" where
  "is_space c = (c \<in> set [0x0009, 0x000A, 0x000B, 0x000C, 0x000D, 0x0020, 0x00A0, 0x1680,
     0x2000, 0x2001, 0x2002, 0x2003, 0x2004, 0x2005, 0x2006, 0x2007, 0x2008, 0x2009, 0x200A,
     0x2028, 0x2029, 0x202F, 0x205F, 0x3000, 0xFEFF])"

definition blank :: "js_string \<Rightarrow> bool" where
  "blank inputText = (dropWhile is_space inputText = [])"

definition startsWith :: "string \<Rightarrow> string \<Rightarrow> bool" where
  "startsWith str p = (take (length p) str = p)"

text \<open>
  \<open>handleOfflineGenerate\<close> up to the return of its promise: it throws (\<open>Inl\<close>, with the
  message) when the pack of the selected language is there and not downloaded, and
  otherwise hands an utterance to the synthesizer.
\<close>

definition handleOfflineGenerate :: "js_string \<Rightarrow> tts_state \<Rightarrow> string + tts_state" where
  "handleOfflineGenerate inputText s =
     (let pack = find (\<lambda>p. language p = selectedLang s) (offlinePacks s)
      in if (case pack of Some p \<Rightarrow> \<not> downloaded p | None \<Rightarrow> False)
         then Inl (''Please download the '' @ lang_name (selectedLang s) @ '' language pack first.'')
         else
           (let locale = (case pack of
                            Some p \<Rightarrow> if localeCode p = [] then ''en-US'' else localeCode p
                          | None \<Rightarrow> ''en-US'');
                v = (case find (\<lambda>v. v = locale) (voices s) of
                       Some v \<Rightarrow> Some v
                     | None \<Rightarrow>
                         find (\<lambda>v. startsWith v (takeWhile (\<lambda>c. c \<noteq> CHR ''-'') locale)) (voices s));
                u = \<lparr>text_utt = inputText, voice_utt = v, rate_utt = playbackSpeed s, pitch_utt = 1\<rparr>
            in Inr (s\<lparr>speechSynthesis := speechSynthesis s @ [Speak u]\<rparr>)))"

text \<open>The \<open>catch\<close> and \<open>finally\<close> blocks of \<open>handleGenerate\<close>.\<close>

definition failed :: "string \<Rightarrow> tts_state \<Rightarrow> tts_state" where
  "failed m s =
     s\<lparr>error := Some (if m = [] then ''Failed to generate speech'' else m),
       isPlaying := False,
       loading := False\<rparr>"

datatype outcome = NoOp | Failed | AwaitingUtterance | AwaitingResponse

text \<open>
  \<open>handleGenerate\<close> up to the point where it waits for the utterance to end or for the
  remote response; a failure before that point runs the \<open>catch\<close> and \<open>finally\<close> blocks.
\<close>

definition handleGenerate :: "js_string \<Rightarrow> tts_state \<Rightarrow> tts_state \<times> outcome" where
  "handleGenerate inputText s =
     (if blank inputText then (s, NoOp)
      else
        (let s1 = s\<lparr>loading := True, error := None, audioUrl := None, isPlaying := True,
                    speechSynthesis := speechSynthesis s @ [Cancel]\<rparr>
         in if isOfflineMode s1
            then (case handleOfflineGenerate inputText s1 of
                    Inl m \<Rightarrow> (failed m s1, Failed)
                  | Inr s2 \<Rightarrow> (s2, AwaitingUtterance))
            else if \<not> apiKey s1 then (failed ''API Key missing'' s1, Failed)
            else (s1, AwaitingResponse)))"

text \<open>The callbacks that end a pending generate call.\<close>

definition utterance_onend :: "tts_state \<Rightarrow> tts_state" where
  "utterance_onend s = s\<lparr>loading := False, isPlaying := False\<rparr>"

definition utterance_onerror :: "tts_state \<Rightarrow> tts_state" where
  "utterance_onerror s = failed ''Offline speech synthesis failed'' (s\<lparr>isPlaying := False\<rparr>)"

text \<open>The remote response: the URL of the WAV blob when it carries audio.\<close>

definition online_response :: "string option \<Rightarrow> tts_state \<Rightarrow> tts_state" where
  "online_response url s =
     (case url of
        Some u \<Rightarrow> s\<lparr>audioUrl := Some u, loading := False\<rparr>
      | None \<Rightarrow> failed ''No audio data returned'' s)"

definition stopPlayback :: "tts_state \<Rightarrow> tts_state" where
  "stopPlayback s =
     s\<lparr>audioRef := (case audioRef s of
                        None \<Rightarrow> None
                      | Some a \<Rightarrow> Some (a\<lparr>paused := True, currentTime := 0\<rparr>)),
       speechSynthesis := speechSynthesis s @ [Cancel],
       isPlaying := False\<rparr>"

text \<open>
  The render state of the specification, read off the flags the component shows:
  a call in flight (\<open>loading\<close>, the label \<open>Generating...\<close>), playback (\<open>isPlaying\<close>),
  an error message, or none of these.
\<close>

datatype RenderState = Idle | Generating | Playing | Error

definition renderState :: "tts_state \<Rightarrow> RenderState" where
  "renderState s =
     (if loading s then Generating
      else if isPlaying s then Playing
      else if error s \<noteq> None then Error
      else Idle)"

definition init_tts :: tts_state where
  "init_tts = \<lparr>text_input = [], selectedLang = ENGLISH, loading = False, error = None,
     audioUrl = None, showSettings = False, isOfflineMode = False, playbackSpeed = 1,
     selectedVoiceId = ''Zephyr'', showLangManager = False, offlinePacks = INITIAL_OFFLINE_PACKS,
     isFloating = False, autoSpeak = False, isPlaying = False, audioRef = Some \<lparr>paused = True, currentTime = 0\<rparr>,
     speechSynthesis = [], voices = [], apiKey = True\<rparr>"

section \<open>Sample inputs\<close>

text \<open>A decoder whose every buffer lasts half a second, and one whose buffers last a
  quarter of a second per character of the payload.\<close>

definition half_second :: "string \<Rightarrow> AudioBuffer" where
  "half_second d = \<lparr>numberOfChannels = 1, length_ab = 12000, sampleRate_ab = 24000,
     getChannelData = (\<lambda>i pos. 0)\<rparr>"

text \<open>Two units scheduled at 0.3 and 0.8, both registered, the cursor at 1.3.\<close>

definition two_playing :: live_state where
  "two_playing = init_live\<lparr>outputAudioContextRef := Some 1, aiSpeaking := True,
     nextStartTime := 13 / 10, sources := [0, 1],
     nodes := [\<lparr>buffer = half_second [], startedAt = Some (3 / 10), stopped = False\<rparr>,
               \<lparr>buffer = half_second [], startedAt = Some (8 / 10), stopped = False\<rparr>]\<rparr>"

text \<open>A mono buffer of 46 frames.\<close>

definition ramp :: AudioBuffer where
  "ramp = \<lparr>numberOfChannels = 1, length_ab = 46, sampleRate_ab = 24000,
     getChannelData = (\<lambda>i pos. if pos < 44 then 1 else - 1)\<rparr>"

text \<open>The text \<open>Sawubona\<close>, in code units.\<close>

definition sawubona :: js_string where
  "sawubona = [0x53, 0x61, 0x77, 0x75, 0x62, 0x6F, 0x6E, 0x61]"

text \<open>Offline mode with isiZulu selected, whose pack is not downloaded, after an earlier
  online render left its audio URL.\<close>

definition zulu_offline :: tts_state where
  "zulu_offline = init_tts\<lparr>text_input := sawubona, selectedLang := ZULU, isOfflineMode := True,
     audioUrl := Some ''blob:earlier''\<rparr>"

definition interrupt_msg :: message where
  "interrupt_msg = \<lparr>inlineData = None, interrupted = True\<rparr>"

definition by_length :: "string \<Rightarrow> AudioBuffer" where
  "by_length d = \<lparr>numberOfChannels = 1, length_ab = 6000 * length d, sampleRate_ab = 24000,
     getChannelData = (\<lambda>i pos. 0)\<rparr>"

text \<open>A session with its output context open, and the same after two chunks have arrived
  whose decodes are both still running.\<close>

definition open_session :: session where
  "open_session = \<lparr>live = init_live\<lparr>outputAudioContextRef := Some 1\<rparr>, suspended = [], arrived = 0\<rparr>"

definition two_suspended :: session where
  "two_suspended = run_events by_length [Arrive 0 (chunk ''AA''), Arrive 0 (chunk ''B'')] open_session"



section \<open>Properties of the playback scheduler\<close>

lemma duration_nonneg: "0 \<le> duration b"
  by (simp add: duration_def)

lemma has_audio_chunk: "d \<noteq> [] \<Longrightarrow> has_audio (chunk d)"
  by (simp add: has_audio_def chunk_def)

lemma onmessage_chunk:
  assumes "outputAudioContextRef s \<noteq> None" and "d \<noteq> []"
  shows "onmessage decode now (chunk d) s =
     s\<lparr>aiSpeaking := True,
       nextStartTime := max (nextStartTime s) now + duration (decode d),
       nodes := nodes s @ [\<lparr>buffer = decode d, startedAt = Some (max (nextStartTime s) now),
                             stopped = False\<rparr>],
       sources := set_add (length (nodes s)) (sources s)\<rparr>"
  using assms has_audio_chunk [of d]
  by (auto simp: onmessage_def onmessage_begin_def onmessage_resume_def handle_interruption_def
      Let_def chunk_def)

text \<open>Handled one after another, chunks are scheduled in arrival order.\<close>

lemma process_chunks:
  assumes "outputAudioContextRef s \<noteq> None" and "0 \<le> nextStartTime s"
    and "\<forall>d \<in> set ds. d \<noteq> []"
  shows "nextStartTime (process decode (map (\<lambda>d. (0, chunk d)) ds) s)
           = nextStartTime s + sum_list (map (\<lambda>d. duration (decode d)) ds)
       \<and> length (nodes (process decode (map (\<lambda>d. (0, chunk d)) ds) s)) = length (nodes s) + length ds
       \<and> (\<forall>k < length ds.
            startedAt (nodes (process decode (map (\<lambda>d. (0, chunk d)) ds) s) ! (length (nodes s) + k))
              = Some (nextStartTime s + sum_list (map (\<lambda>d. duration (decode d)) (take k ds)))
          \<and> buffer (nodes (process decode (map (\<lambda>d. (0, chunk d)) ds) s) ! (length (nodes s) + k))
              = decode (ds ! k))
       \<and> (\<forall>j < length (nodes s).
            nodes (process decode (map (\<lambda>d. (0, chunk d)) ds) s) ! j = nodes s ! j)"
  using assms
proof (induction ds arbitrary: s)
  case Nil
  then show ?case by simp
next
  case (Cons d ds)
  let ?s1 = "onmessage decode 0 (chunk d) s"
  have d: "d \<noteq> []" using Cons.prems by simp
  have s1: "?s1 = s\<lparr>aiSpeaking := True,
       nextStartTime := max (nextStartTime s) 0 + duration (decode d),
       nodes := nodes s @ [\<lparr>buffer = decode d, startedAt = Some (max (nextStartTime s) 0),
                             stopped = False\<rparr>],
       sources := set_add (length (nodes s)) (sources s)\<rparr>"
    using Cons.prems(1) d by (rule onmessage_chunk)
  have mx: "max (nextStartTime s) 0 = nextStartTime s" using Cons.prems(2) by simp
  have c1: "outputAudioContextRef ?s1 \<noteq> None" using Cons.prems(1) by (simp add: s1)
  have c2: "0 \<le> nextStartTime ?s1" using Cons.prems(2) duration_nonneg [of "decode d"] by (simp add: s1)
  have c3: "\<forall>d \<in> set ds. d \<noteq> []" using Cons.prems(3) by simp
  note IH = Cons.IH [OF c1 c2 c3]
  have n1: "nodes ?s1 = nodes s @ [\<lparr>buffer = decode d, startedAt = Some (nextStartTime s),
                             stopped = False\<rparr>]" by (simp add: s1 mx)
  have t1: "nextStartTime ?s1 = nextStartTime s + duration (decode d)" by (simp add: s1 mx)
  have l1: "length (nodes ?s1) = Suc (length (nodes s))" by (simp add: n1)
  let ?r = "process decode (map (\<lambda>d. (0, chunk d)) ds) ?s1"
  have pe: "process decode (map (\<lambda>d. (0, chunk d)) (d # ds)) s = ?r" by simp
  have A: "nextStartTime ?r = nextStartTime s + sum_list (map (\<lambda>d. duration (decode d)) (d # ds))"
    using IH t1 by simp
  have B: "length (nodes ?r) = length (nodes s) + length (d # ds)"
    using IH l1 by simp
  have D: "\<forall>j < length (nodes s). nodes ?r ! j = nodes s ! j"
  proof (intro allI impI)
    fix j assume j: "j < length (nodes s)"
    then have "j < length (nodes ?s1)" by (simp add: l1)
    then have "nodes ?r ! j = nodes ?s1 ! j" using IH by blast
    then show "nodes ?r ! j = nodes s ! j" using j by (simp add: n1 nth_append)
  qed
  have C: "\<forall>k < length (d # ds).
            startedAt (nodes ?r ! (length (nodes s) + k))
              = Some (nextStartTime s + sum_list (map (\<lambda>d. duration (decode d)) (take k (d # ds))))
          \<and> buffer (nodes ?r ! (length (nodes s) + k)) = decode ((d # ds) ! k)"
  proof (intro allI impI)
    fix k assume k: "k < length (d # ds)"
    show "startedAt (nodes ?r ! (length (nodes s) + k))
              = Some (nextStartTime s + sum_list (map (\<lambda>d. duration (decode d)) (take k (d # ds))))
          \<and> buffer (nodes ?r ! (length (nodes s) + k)) = decode ((d # ds) ! k)"
    proof (cases k)
      case 0
      have "length (nodes s) < length (nodes ?s1)" by (simp add: l1)
      then have "nodes ?r ! length (nodes s) = nodes ?s1 ! length (nodes s)" using IH by blast
      then show ?thesis using 0 by (simp add: n1)
    next
      case (Suc k')
      then have k': "k' < length ds" using k by simp
      have "startedAt (nodes ?r ! (length (nodes ?s1) + k'))
              = Some (nextStartTime ?s1 + sum_list (map (\<lambda>d. duration (decode d)) (take k' ds)))
          \<and> buffer (nodes ?r ! (length (nodes ?s1) + k')) = decode (ds ! k')"
        using IH k' by blast
      then show ?thesis using Suc by (simp add: l1 t1 add.assoc)
    qed
  qed
  show ?case unfolding pe using A B C D by blast
qed




lemma length_stop_node: "length (stop_node i ns) = length ns"
  by (simp add: stop_node_def)

lemma length_stop_each: "length (stop_each ids ns) = length ns"
  unfolding stop_each_def
  by (induction ids arbitrary: ns) (simp_all add: length_stop_node)

lemma stop_node_stopped_mono:
  "j < length ns \<Longrightarrow> stopped (ns ! j) \<Longrightarrow> stopped (stop_node i ns ! j)"
  by (simp add: stop_node_def nth_list_update)

lemma stop_node_hit: "i < length ns \<Longrightarrow> stopped (stop_node i ns ! i)"
  by (simp add: stop_node_def)

lemma fold_stop_keeps:
  "j < length ns \<Longrightarrow> stopped (ns ! j) \<Longrightarrow> stopped (fold stop_node ids ns ! j)"
proof (induction ids arbitrary: ns)
  case Nil
  then show ?case by simp
next
  case (Cons i ids)
  have "j < length (stop_node i ns)" using Cons.prems by (simp add: length_stop_node)
  moreover have "stopped (stop_node i ns ! j)" using Cons.prems by (rule stop_node_stopped_mono)
  ultimately show ?case using Cons.IH by simp
qed

lemma stop_each_stops:
  "i \<in> set ids \<Longrightarrow> i < length ns \<Longrightarrow> stopped (stop_each ids ns ! i)"
  unfolding stop_each_def
proof (induction ids arbitrary: ns)
  case Nil
  then show ?case by simp
next
  case (Cons a ids)
  show ?case
  proof (cases "a = i")
    case True
    have "i < length (stop_node i ns)" using Cons.prems by (simp add: length_stop_node)
    moreover have "stopped (stop_node i ns ! i)" using Cons.prems by (simp add: stop_node_hit)
    ultimately show ?thesis using True by (simp add: fold_stop_keeps)
  next
    case False
    then have "i \<in> set ids" using Cons.prems by simp
    moreover have "i < length (stop_node a ns)" using Cons.prems by (simp add: length_stop_node)
    ultimately show ?thesis using Cons.IH by simp
  qed
qed

lemma onInterrupt_effect:
  "sources (onInterrupt s) = [] \<and> nextStartTime (onInterrupt s) = 0 \<and> \<not> aiSpeaking (onInterrupt s)
   \<and> nodes (onInterrupt s) = stop_each (sources s) (nodes s)"
  by (simp add: onInterrupt_def log_msg_def Let_def)

text \<open>The registered identities stay valid under every operation of the component.\<close>

lemma ids_valid_init: "ids_valid init_live"
  by (simp add: ids_valid_def init_live_def)

lemma ids_valid_onInterrupt: "ids_valid (onInterrupt s)"
  by (simp add: ids_valid_def onInterrupt_def Let_def)

lemma ids_valid_handle_interruption: "ids_valid s \<Longrightarrow> ids_valid (handle_interruption msg s)"
  by (simp add: handle_interruption_def ids_valid_onInterrupt)

lemma ids_valid_resume: "ids_valid s \<Longrightarrow> ids_valid (onmessage_resume b msg s)"
  unfolding onmessage_resume_def Let_def
  by (rule ids_valid_handle_interruption) (auto simp: ids_valid_def set_add_def)

lemma ids_valid_begin: "ids_valid s \<Longrightarrow> ids_valid (fst (onmessage_begin now msg s))"
  by (auto simp: onmessage_begin_def ids_valid_handle_interruption) (simp add: ids_valid_def)

lemma ids_valid_onmessage: "ids_valid s \<Longrightarrow> ids_valid (onmessage decode now msg s)"
  using ids_valid_begin [of s now msg]
  by (cases "onmessage_begin now msg s") (auto simp: onmessage_def ids_valid_resume split: bool.splits)

lemma ids_valid_on_ended: "ids_valid s \<Longrightarrow> ids_valid (on_ended source s)"
  by (auto simp: on_ended_def ids_valid_def set_delete_def Let_def)

lemma ids_valid_stopAll: "ids_valid (stopAll s)"
  by (simp add: ids_valid_def stopAll_def)

lemma ids_valid_startSession:
  "ids_valid s \<Longrightarrow> ids_valid (startSession inCtx outCtx stream session s)"
  by (simp add: ids_valid_def startSession_def log_msg_def Let_def)

text \<open>
  Claim C2.  When a message carrying the interrupted signal has been handled, every source
  that was registered has been stopped, the set of active sources is empty, the cursor is
  0 and \<open>aiSpeaking\<close> is false, however many sources there were.  The same holds of the
  interruption block run from any state, as it is when a suspended handler resumes.
\<close>

theorem interrupt_clears:
  assumes ctx: "outputAudioContextRef s \<noteq> None"
    and intr: "interrupted msg"
    and valid: "ids_valid s"
  shows "(\<forall>i \<in> set (sources s). stopped (nodes (onmessage decode now msg s) ! i))
       \<and> sources (onmessage decode now msg s) = []
       \<and> nextStartTime (onmessage decode now msg s) = 0
       \<and> \<not> aiSpeaking (onmessage decode now msg s)
       \<and> (\<forall>i \<in> set (sources s). stopped (nodes (onInterrupt s) ! i))
       \<and> sources (onInterrupt s) = []
       \<and> nextStartTime (onInterrupt s) = 0
       \<and> \<not> aiSpeaking (onInterrupt s)"
proof -
  have ids: "\<forall>i \<in> set (sources s). i < length (nodes s)"
    using valid by (simp add: ids_valid_def)
  have block: "(\<forall>i \<in> set (sources s). stopped (nodes (onInterrupt s) ! i))
       \<and> sources (onInterrupt s) = []
       \<and> nextStartTime (onInterrupt s) = 0
       \<and> \<not> aiSpeaking (onInterrupt s)"
    using ids by (simp add: onInterrupt_effect stop_each_stops)
  show ?thesis
  proof (cases "has_audio msg")
  case False
  then have eq: "onmessage decode now msg s = onInterrupt s"
    using ctx intr by (auto simp: onmessage_def onmessage_begin_def handle_interruption_def)
  show ?thesis unfolding eq using block by simp
next
  case True
  define s3 where "s3 = (s\<lparr>aiSpeaking := True, nextStartTime := max (nextStartTime s) now,
      nodes := nodes s @ [\<lparr>buffer = decode (the (inlineData msg)),
         startedAt = Some (max (nextStartTime s) now), stopped = False\<rparr>],
      nextStartTime := max (nextStartTime s) now + duration (decode (the (inlineData msg))),
      sources := set_add (length (nodes s)) (sources s)\<rparr>)"
  have eq: "onmessage decode now msg s = onInterrupt s3"
    using ctx intr True
    by (auto simp: onmessage_def onmessage_begin_def onmessage_resume_def handle_interruption_def
        Let_def s3_def)
  have a: "\<forall>i \<in> set (sources s). i \<in> set (sources s3) \<and> i < length (nodes s3)"
    using ids by (auto simp: s3_def set_add_def)
  have "(\<forall>i \<in> set (sources s). stopped (nodes (onInterrupt s3) ! i))
       \<and> sources (onInterrupt s3) = []
       \<and> nextStartTime (onInterrupt s3) = 0
       \<and> \<not> aiSpeaking (onInterrupt s3)"
    using a by (simp add: onInterrupt_effect stop_each_stops)
  then show ?thesis unfolding eq using block by simp
  qed
qed

theorem interrupt_clears_witness:
  "stopped (nodes (onmessage half_second (4 / 10) interrupt_msg two_playing) ! 0)
   \<and> stopped (nodes (onmessage half_second (4 / 10) interrupt_msg two_playing) ! 1)
   \<and> sources (onmessage half_second (4 / 10) interrupt_msg two_playing) = []
   \<and> nextStartTime (onmessage half_second (4 / 10) interrupt_msg two_playing) = 0
   \<and> \<not> aiSpeaking (onmessage half_second (4 / 10) interrupt_msg two_playing)"
  using interrupt_clears [of two_playing interrupt_msg half_second "4 / 10"]
  by (simp add: two_playing_def interrupt_msg_def init_live_def ids_valid_def)

section \<open>Properties of the handler on the event loop\<close>

lemma step_pair:
  assumes "suspended \<sigma> = []"
  shows "step decode (Decoded (arrived \<sigma>)) (step decode (Arrive now msg) \<sigma>)
       = \<sigma>\<lparr>live := onmessage decode now msg (live \<sigma>), arrived := Suc (arrived \<sigma>)\<rparr>"
  using assms
  by (cases "onmessage_begin now msg (live \<sigma>)") (auto simp: onmessage_def split: bool.splits)

text \<open>
  Claim C3, against it.  Two chunks arrive, \<open>''AA''\<close> first and \<open>''B''\<close> second, and the
  decode of the second completes first.  The unit of the second chunk is created first and
  starts at cursor 0; the unit of the first chunk starts after it, at 1/4: the order is the
  order of decode completion, not of arrival.
\<close>

theorem decode_order_counterexample:
  "map (\<lambda>n. (buffer n, startedAt n)) (nodes (live (run_events by_length
     [Arrive 0 (chunk ''AA''), Arrive 0 (chunk ''B''), Decoded 1, Decoded 0] open_session)))
   = [(by_length ''B'', Some 0), (by_length ''AA'', Some (1 / 4))]"
  by (simp add: open_session_def init_live_def chunk_def onmessage_begin_def has_audio_def
      onmessage_resume_def handle_interruption_def Let_def by_length_def duration_def set_add_def)

lemma resume_chunk:
  assumes "\<not> interrupted msg"
  shows "onmessage_resume b msg s =
     s\<lparr>nodes := nodes s @ [\<lparr>buffer = b, startedAt = Some (nextStartTime s), stopped = False\<rparr>],
       nextStartTime := nextStartTime s + duration b,
       sources := set_add (length (nodes s)) (sources s)\<rparr>"
  using assms by (simp add: onmessage_resume_def handle_interruption_def Let_def)

text \<open>
  Claim C3, as amended.  The cursor is advanced and the unit scheduled when the decode
  completes: the completion of the decode of a suspended chunk message appends a unit that
  starts at the cursor of that moment and advances the cursor by its duration.  When the
  decode of every chunk completes before the next message arrives, the session ends in the
  state that handling the messages one after another, in arrival order, gives, with no
  handler left suspended.
\<close>

theorem scheduled_on_completion:
  "(\<forall>k msg. map_of (suspended \<sigma>) k = Some msg \<and> \<not> interrupted msg \<longrightarrow>
      nodes (live (step decode (Decoded k) \<sigma>))
        = nodes (live \<sigma>) @ [\<lparr>buffer = decode (the (inlineData msg)),
                                 startedAt = Some (nextStartTime (live \<sigma>)), stopped = False\<rparr>]
      \<and> nextStartTime (live (step decode (Decoded k) \<sigma>))
        = nextStartTime (live \<sigma>) + duration (decode (the (inlineData msg))))
   \<and> (suspended \<sigma> = [] \<longrightarrow>
      live (run_events decode (one_at_a_time (arrived \<sigma>) ms) \<sigma>) = process decode ms (live \<sigma>)
      \<and> suspended (run_events decode (one_at_a_time (arrived \<sigma>) ms) \<sigma>) = [])"
proof (intro conjI allI impI)
  fix k msg
  assume a: "map_of (suspended \<sigma>) k = Some msg \<and> \<not> interrupted msg"
  then have st: "step decode (Decoded k) \<sigma>
      = \<sigma>\<lparr>live := onmessage_resume (decode (the (inlineData msg))) msg (live \<sigma>),
          suspended := filter (\<lambda>p. fst p \<noteq> k) (suspended \<sigma>)\<rparr>"
    by simp
  show "nodes (live (step decode (Decoded k) \<sigma>))
        = nodes (live \<sigma>) @ [\<lparr>buffer = decode (the (inlineData msg)),
                                 startedAt = Some (nextStartTime (live \<sigma>)), stopped = False\<rparr>]"
    using a by (simp add: st resume_chunk del: step.simps)
  show "nextStartTime (live (step decode (Decoded k) \<sigma>))
        = nextStartTime (live \<sigma>) + duration (decode (the (inlineData msg)))"
    using a by (simp add: st resume_chunk del: step.simps)
next
  assume e: "suspended \<sigma> = []"
  have "live (run_events decode (one_at_a_time (arrived \<sigma>) ms) \<sigma>) = process decode ms (live \<sigma>)
       \<and> suspended (run_events decode (one_at_a_time (arrived \<sigma>) ms) \<sigma>) = []"
    using e
  proof (induction ms arbitrary: \<sigma>)
    case Nil
    then show ?case by simp
  next
    case (Cons m ms)
    obtain now msg where m: "m = (now, msg)" by (cases m)
    let ?\<sigma>1 = "\<sigma>\<lparr>live := onmessage decode now msg (live \<sigma>), arrived := Suc (arrived \<sigma>)\<rparr>"
    have p: "step decode (Decoded (arrived \<sigma>)) (step decode (Arrive now msg) \<sigma>) = ?\<sigma>1"
      using Cons.prems by (rule step_pair)
    have "suspended ?\<sigma>1 = []" using Cons.prems by simp
    from Cons.IH [OF this] show ?case by (simp add: m p del: step.simps)
  qed
  then show "live (run_events decode (one_at_a_time (arrived \<sigma>) ms) \<sigma>) = process decode ms (live \<sigma>)"
    and "suspended (run_events decode (one_at_a_time (arrived \<sigma>) ms) \<sigma>) = []"
    by simp_all
qed

lemma two_suspended_eq:
  "two_suspended = \<lparr>live = init_live\<lparr>outputAudioContextRef := Some 1, aiSpeaking := True\<rparr>,
      suspended = [(0, chunk ''AA''), (1, chunk ''B'')], arrived = 2\<rparr>"
  by (simp add: two_suspended_def open_session_def init_live_def chunk_def onmessage_begin_def
      has_audio_def numeral_2_eq_2)

theorem scheduled_on_completion_witness:
  "nodes (live (step by_length (Decoded 1) two_suspended))
     = [\<lparr>buffer = by_length ''B'', startedAt = Some 0, stopped = False\<rparr>]
   \<and> map (\<lambda>n. (buffer n, startedAt n)) (nodes (live (run_events by_length
        (one_at_a_time 0 [(0, chunk ''AA''), (0, chunk ''B'')]) open_session)))
     = [(by_length ''AA'', Some 0), (by_length ''B'', Some (1 / 2))]"
proof -
  have a: "map_of (suspended two_suspended) 1 = Some (chunk ''B'') \<and> \<not> interrupted (chunk ''B'')"
    by (simp add: two_suspended_eq chunk_def)
  have b: "suspended open_session = []" by (simp add: open_session_def)
  note t1 = scheduled_on_completion [of two_suspended by_length "[]", THEN conjunct1, rule_format, OF a]
  note t2 = scheduled_on_completion [of open_session by_length "[(0, chunk ''AA''), (0, chunk ''B'')]",
      THEN conjunct2, rule_format, OF b]
  have n0: "nodes (live two_suspended) = []" "nextStartTime (live two_suspended) = 0"
    by (simp_all add: two_suspended_eq init_live_def)
  have ar: "arrived open_session = 0" by (simp add: open_session_def)
  have "nodes (live (step by_length (Decoded 1) two_suspended))
     = [\<lparr>buffer = by_length ''B'', startedAt = Some 0, stopped = False\<rparr>]"
    using t1 by (simp add: n0 chunk_def)
  moreover have "map (\<lambda>n. (buffer n, startedAt n)) (nodes (live (run_events by_length
        (one_at_a_time 0 [(0, chunk ''AA''), (0, chunk ''B'')]) open_session)))
     = [(by_length ''AA'', Some 0), (by_length ''B'', Some (1 / 2))]"
    using t2 unfolding ar
    by (simp add: open_session_def init_live_def chunk_def onmessage_begin_def has_audio_def
      onmessage_resume_def handle_interruption_def Let_def by_length_def duration_def set_add_def
      onmessage_def)
  ultimately show ?thesis by blast
qed

subsection \<open>Back-to-back scheduling under every interleaving\<close>












section \<open>Properties of capture and transport\<close>

lemma then_send_handed: "handed (then_send b t) = handed t @ [b]"
  by (simp add: handed_def then_send_def split: promise.splits)

lemma frames_pending:
  "sessionPromise t = Pending cbs \<Longrightarrow>
   snd (capture_run f (map Frame xs) (s, t)) = t\<lparr>sessionPromise := Pending (cbs @ map f xs)\<rparr>"
proof (induction xs arbitrary: s t cbs)
  case Nil
  then show ?case by simp
next
  case (Cons x xs)
  let ?t1 = "then_send (f x) t"
  have t1: "?t1 = t\<lparr>sessionPromise := Pending (cbs @ [f x])\<rparr>"
    using Cons.prems by (simp add: then_send_def)
  then have "sessionPromise ?t1 = Pending (cbs @ [f x])" by simp
  from Cons.IH [OF this] show ?case
    by (simp add: onaudioprocess_def t1)
qed

lemma frames_resolved:
  "sessionPromise t = Resolved \<Longrightarrow>
   snd (capture_run f (map Frame ys) (s, t)) = t\<lparr>sent := sent t @ map f ys\<rparr>"
proof (induction ys arbitrary: s t)
  case Nil
  then show ?case by simp
next
  case (Cons y ys)
  let ?t1 = "then_send (f y) t"
  have t1: "?t1 = t\<lparr>sent := sent t @ [f y]\<rparr>"
    using Cons.prems by (simp add: then_send_def)
  then have "sessionPromise ?t1 = Resolved" using Cons.prems by simp
  from Cons.IH [OF this] show ?case
    by (simp add: onaudioprocess_def t1)
qed

lemma capture_run_append:
  "capture_run f (es @ es') st = capture_run f es' (capture_run f es st)"
  by (induction es arbitrary: st) simp_all

text \<open>
  Claim C6.  Blobs handed over while the session promise is pending are not sent; they wait
  in registration order.  Resolving the promise sends exactly those blobs in that order,
  and every blob handed over afterwards is sent as it comes.  With no resolution nothing is
  ever sent.
\<close>

theorem deferred_sends:
  "sent (snd (capture_run f (map Frame xs) (s, new_transport))) = []
   \<and> sessionPromise (snd (capture_run f (map Frame xs) (s, new_transport))) = Pending (map f xs)
   \<and> sent (snd (capture_run f (map Frame xs @ [ResolveSession]) (s, new_transport))) = map f xs
   \<and> sent (snd (capture_run f (map Frame xs @ [ResolveSession] @ map Frame ys) (s, new_transport)))
       = map f xs @ map f ys"
proof -
  have p: "sessionPromise (new_transport :: 'a transport) = Pending []"
    by (simp add: new_transport_def)
  obtain s1 where a: "capture_run f (map Frame xs) (s, new_transport)
      = (s1, new_transport\<lparr>sessionPromise := Pending (map f xs)\<rparr>)"
    using frames_pending [OF p, of f xs s]
    by (cases "capture_run f (map Frame xs) (s, new_transport)") simp
  have r: "resolveSession (new_transport\<lparr>sessionPromise := Pending (map f xs)\<rparr>)
      = \<lparr>sessionPromise = Resolved, sent = map f xs\<rparr>"
    by (simp add: resolveSession_def new_transport_def)
  have q: "sessionPromise \<lparr>sessionPromise = Resolved, sent = map f xs\<rparr> = Resolved" by simp
  show ?thesis
    by (simp add: capture_run_append a r frames_resolved [OF q]) (simp add: new_transport_def)
qed

text \<open>
  Claim C7.  For every frame the capture callback hands the encoded frame to the transport,
  whatever the RMS test says; the test only sets the \<open>speaking\<close> flag.
\<close>

theorem every_frame_sent:
  "snd (onaudioprocess f inputData (s, t)) = then_send (f inputData) t
   \<and> handed (snd (onaudioprocess f inputData (s, t))) = handed t @ [f inputData]
   \<and> speaking (fst (onaudioprocess f inputData (s, t))) = (rms inputData > 2 / 100)"
  by (simp add: onaudioprocess_def then_send_handed)

section \<open>Properties of bufferToWav\<close>

lemma length_le_bytes: "length (le_bytes n v) = n"
  by (simp add: le_bytes_def)

lemma le_bytes_2: "le_bytes 2 v = [of_nat v, of_nat (v div 256)]"
  by (simp add: le_bytes_def numeral_2_eq_2 upt_rec)

lemma le_bytes_4:
  "le_bytes 4 v = [of_nat v, of_nat (v div 256), of_nat (v div 65536), of_nat (v div 16777216)]"
proof -
  have "[0..<4] = [0, 1, 2, 3]" by (simp add: upt_rec)
  then show ?thesis by (simp add: le_bytes_def)
qed

lemma dataview_set_fresh:
  assumes "length bs \<le> k"
  shows "dataview_set (pre @ replicate k 0) (length pre) bs
       = Inr ((pre @ bs) @ replicate (k - length bs) 0)"
  using assms by (simp add: dataview_set_def)

lemma setUint32_fresh:
  assumes "4 \<le> k"
  shows "setUint32 data (header_state pre k) = Inr (header_state (pre @ le_bytes 4 (data (length pre))) (k - 4))"
  using assms dataview_set_fresh [of "le_bytes 4 (data (length pre))" k pre]
  by (simp add: setUint32_def header_state_def length_le_bytes)

lemma setUint16_fresh:
  assumes "2 \<le> k"
  shows "setUint16 data (header_state pre k) = Inr (header_state (pre @ le_bytes 2 (data (length pre))) (k - 2))"
  using assms dataview_set_fresh [of "le_bytes 2 (data (length pre))" k pre]
  by (simp add: setUint16_def header_state_def length_le_bytes)

lemma length_header_bytes: "length (header_bytes c len rate) = 44"
  by (simp add: header_bytes_def length_le_bytes)

lemma writeHeader_fresh:
  "writeHeader c (m + 44) rate (replicate (m + 44) 0, 0)
     = Inr (header_bytes c (m + 44) rate @ replicate m 0, 44)"
proof -
  have start: "(replicate (m + 44) (0 :: byte), 0 :: nat) = header_state [] (m + 44)"
    by (simp add: header_state_def)
  show ?thesis
    unfolding writeHeader_def start
    by (simp add: setUint32_fresh setUint16_fresh length_le_bytes)
       (simp add: header_state_def header_bytes_def length_le_bytes)
qed

lemma dataview_set_keeps:
  assumes "dataview_set view (44 + offset) bs = Inr view'"
  shows "length view' = length view \<and> take 44 view' = take 44 view"
  using assms by (auto simp: dataview_set_def split: if_splits)

lemma write_channels_ok:
  assumes "44 + offset + 2 * (numberOfChannels b - i) \<le> length view"
  shows "\<exists>view'. write_channels b pos i (view, offset)
            = Inr (view', offset + 2 * (numberOfChannels b - i))
          \<and> length view' = length view \<and> take 44 view' = take 44 view"
  using assms
proof (induction b pos i "(view, offset)" arbitrary: view offset rule: write_channels.induct)
  case (1 abuffer pos i view offset)
  show ?case
  proof (cases "i < numberOfChannels abuffer")
    case False
    then show ?thesis by simp
  next
    case True
    let ?bs = "le_bytes 2 (nat (encode_sample (getChannelData abuffer i pos) mod 65536))"
    have fits: "44 + offset + length ?bs \<le> length view"
      using True "1.prems" by (simp add: length_le_bytes)
    then obtain view1 where w: "setInt16 view (44 + offset) (encode_sample (getChannelData abuffer i pos)) = Inr view1"
      by (simp add: setInt16_def dataview_set_def)
    have k: "length view1 = length view \<and> take 44 view1 = take 44 view"
      using w dataview_set_keeps [of view offset ?bs view1] by (simp add: setInt16_def)
    have pre: "44 + (offset + 2) + 2 * (numberOfChannels abuffer - Suc i) \<le> length view1"
      using True "1.prems" k by simp
    from "1.hyps" [OF True w pre] obtain view' where
      r: "write_channels abuffer pos (Suc i) (view1, offset + 2)
            = Inr (view', offset + 2 + 2 * (numberOfChannels abuffer - Suc i))"
      and l: "length view' = length view1" and t: "take 44 view' = take 44 view1"
      by blast
    have off: "offset + 2 + 2 * (numberOfChannels abuffer - Suc i)
             = offset + 2 * (numberOfChannels abuffer - i)"
      using True by simp
    show ?thesis using True w r l t k off by simp
  qed
qed

lemma write_frames_ok:
  assumes "44 + offset + 2 * numberOfChannels b * (length_ab b - pos) \<le> length view"
  shows "\<exists>view' offset'. write_frames b pos (view, offset) = Inr (view', offset')
          \<and> length view' = length view \<and> take 44 view' = take 44 view"
  using assms
proof (induction b pos "(view, offset)" arbitrary: view offset rule: write_frames.induct)
  case (1 abuffer pos view offset)
  show ?case
  proof (cases "pos < length_ab abuffer")
    case False
    then show ?thesis by simp
  next
    case True
    let ?c = "numberOfChannels abuffer"
    have split: "?c * (length_ab abuffer - pos) = ?c + ?c * (length_ab abuffer - Suc pos)"
    proof -
      have "length_ab abuffer - pos = Suc (length_ab abuffer - Suc pos)" using True by simp
      then show ?thesis by simp
    qed
    have room: "44 + offset + 2 * (?c - 0) \<le> length view"
      using "1.prems" split by simp
    from write_channels_ok [OF room, of pos] obtain view1 where
      w: "write_channels abuffer pos 0 (view, offset) = Inr (view1, offset + 2 * ?c)"
      and l1: "length view1 = length view" and t1: "take 44 view1 = take 44 view"
      by auto
    have pre: "44 + (offset + 2 * ?c) + 2 * ?c * (length_ab abuffer - Suc pos) \<le> length view1"
      using "1.prems" split l1 by (simp add: algebra_simps)
    from "1.hyps" [OF True w pre] obtain view' offset' where
      r: "write_frames abuffer (Suc pos) (view1, offset + 2 * ?c) = Inr (view', offset')"
      and l: "length view' = length view1" and t: "take 44 view' = take 44 view1"
      by blast
    show ?thesis using True w r l t l1 t1 by simp
  qed
qed

lemma bufferToWav_ok:
  assumes "0 < numberOfChannels b"
  shows "\<exists>bytes. bufferToWav b rate = Inr bytes
          \<and> length bytes = 44 + length_ab b * numberOfChannels b * 2
          \<and> take 44 bytes = header_bytes (numberOfChannels b) (length_ab b * numberOfChannels b * 2 + 44) rate"
proof -
  let ?c = "numberOfChannels b"
  let ?m = "length_ab b * ?c * 2"
  let ?view = "header_bytes ?c (?m + 44) rate @ replicate ?m 0"
  have h: "writeHeader ?c (?m + 44) rate (replicate (?m + 44) 0, 0) = Inr (?view, 44)"
    by (rule writeHeader_fresh)
  have "?c * (length_ab b - 44) \<le> ?c * length_ab b" by simp
  then have room: "44 + 0 + 2 * ?c * (length_ab b - 44) \<le> length ?view"
    by (simp add: length_header_bytes algebra_simps)
  from write_frames_ok [OF room] obtain view' offset' where
    r: "write_frames b 44 (?view, 0) = Inr (view', offset')"
    and l: "length view' = length ?view" and t: "take 44 view' = take 44 ?view"
    by blast
  have "bufferToWav b rate = Inr view'"
    using assms h r by (simp add: bufferToWav_def Let_def)
  moreover have "length view' = 44 + ?m" using l by (simp add: length_header_bytes)
  moreover have "take 44 view' = header_bytes ?c (?m + 44) rate"
    using t by (simp add: length_header_bytes)
  ultimately show ?thesis by blast
qed

lemma header_at:
  assumes "take 44 bytes = hdr" and "i < 44"
  shows "bytes ! i = hdr ! i"
  using assms by (metis nth_take)

lemma header_explicit:
  "header_bytes c len rate =
    [0x52, 0x49, 0x46, 0x46,
     of_nat (len - 8), of_nat ((len - 8) div 256), of_nat ((len - 8) div 65536), of_nat ((len - 8) div 16777216),
     0x57, 0x41, 0x56, 0x45,
     0x66, 0x6d, 0x74, 0x20,
     16, 0, 0, 0,
     1, 0,
     of_nat c, of_nat (c div 256),
     of_nat rate, of_nat (rate div 256), of_nat (rate div 65536), of_nat (rate div 16777216),
     of_nat (rate * 2 * c), of_nat (rate * 2 * c div 256), of_nat (rate * 2 * c div 65536), of_nat (rate * 2 * c div 16777216),
     of_nat (c * 2), of_nat (c * 2 div 256),
     16, 0,
     0x64, 0x61, 0x74, 0x61,
     of_nat (len - 44), of_nat ((len - 44) div 256), of_nat ((len - 44) div 65536), of_nat ((len - 44) div 16777216)]"
  unfolding header_bytes_def le_bytes_4 le_bytes_2 by simp

lemma read_u16:
  assumes "v < 65536"
  shows "unat (of_nat v :: byte) + 256 * unat (of_nat (v div 256) :: byte) = v"
proof -
  have "v div 256 < 256" using assms by simp
  then show ?thesis by (simp add: unat_of_nat)
qed

lemma split_u32:
  fixes v :: nat
  assumes "v < 4294967296"
  shows "v mod 256 + 256 * (v div 256 mod 256) + 65536 * (v div 65536 mod 256)
       + 16777216 * (v div 16777216) = v"
proof -
  have a: "v div 256 div 256 = v div 65536" by (simp add: div_mult2_eq [symmetric])
  have b: "v div 65536 div 256 = v div 16777216" by (simp add: div_mult2_eq [symmetric])
  have 1: "v = 256 * (v div 256) + v mod 256" by simp
  have 2: "v div 256 = 256 * (v div 65536) + v div 256 mod 256"
    using mult_div_mod_eq [of 256 "v div 256"] a by simp
  have 3: "v div 65536 = 256 * (v div 16777216) + v div 65536 mod 256"
    using mult_div_mod_eq [of 256 "v div 65536"] b by simp
  show ?thesis using 1 2 3 by linarith
qed

lemma read_u32:
  assumes "v < 4294967296"
  shows "unat (of_nat v :: byte) + 256 * unat (of_nat (v div 256) :: byte)
       + 65536 * unat (of_nat (v div 65536) :: byte)
       + 16777216 * unat (of_nat (v div 16777216) :: byte) = v"
proof -
  have a: "v div 16777216 < 256" using assms by simp
  have "unat (of_nat v :: byte) = v mod 256" by (simp add: unat_of_nat)
  moreover have "unat (of_nat (v div 256) :: byte) = v div 256 mod 256" by (simp add: unat_of_nat)
  moreover have "unat (of_nat (v div 65536) :: byte) = v div 65536 mod 256" by (simp add: unat_of_nat)
  moreover have "unat (of_nat (v div 16777216) :: byte) = v div 16777216" using a by (simp add: unat_of_nat)
  ultimately show ?thesis using split_u32 [OF assms] by simp
qed

lemma header_fields:
  assumes hdr: "take 44 bytes = header_bytes c len rate"
    and "c * 2 < 65536" and "rate * 2 * c < 4294967296" and "rate < 4294967296"
    and "len - 44 < 4294967296"
  shows "getUint16 bytes 20 = 1" and "getUint16 bytes 22 = c" and "getUint32 bytes 24 = rate"
    and "getUint32 bytes 28 = rate * 2 * c" and "getUint16 bytes 32 = c * 2"
    and "getUint16 bytes 34 = 16" and "getUint32 bytes 40 = len - 44"
    and "take 4 (drop 36 bytes) = [0x64, 0x61, 0x74, 0x61]"
proof -
  let ?h = "header_bytes c len rate"
  have c: "c < 65536" using assms(2) by simp
  have b20: "bytes ! 20 = 1" "bytes ! 21 = 0"
    using header_at [OF hdr, of 20] header_at [OF hdr, of 21] by (simp_all add: header_explicit)
  have b22: "bytes ! 22 = of_nat c" "bytes ! 23 = of_nat (c div 256)"
    using header_at [OF hdr, of 22] header_at [OF hdr, of 23] by (simp_all add: header_explicit)
  have b24: "bytes ! 24 = of_nat rate" "bytes ! 25 = of_nat (rate div 256)"
    "bytes ! 26 = of_nat (rate div 65536)" "bytes ! 27 = of_nat (rate div 16777216)"
    using header_at [OF hdr, of 24] header_at [OF hdr, of 25] header_at [OF hdr, of 26]
      header_at [OF hdr, of 27] by (simp_all add: header_explicit)
  have b28: "bytes ! 28 = of_nat (rate * 2 * c)" "bytes ! 29 = of_nat (rate * 2 * c div 256)"
    "bytes ! 30 = of_nat (rate * 2 * c div 65536)" "bytes ! 31 = of_nat (rate * 2 * c div 16777216)"
    using header_at [OF hdr, of 28] header_at [OF hdr, of 29] header_at [OF hdr, of 30]
      header_at [OF hdr, of 31] by (simp_all add: header_explicit)
  have b32: "bytes ! 32 = of_nat (c * 2)" "bytes ! 33 = of_nat (c * 2 div 256)"
    using header_at [OF hdr, of 32] header_at [OF hdr, of 33] by (simp_all add: header_explicit)
  have b34: "bytes ! 34 = 16" "bytes ! 35 = 0"
    using header_at [OF hdr, of 34] header_at [OF hdr, of 35] by (simp_all add: header_explicit)
  have b40: "bytes ! 40 = of_nat (len - 44)" "bytes ! 41 = of_nat ((len - 44) div 256)"
    "bytes ! 42 = of_nat ((len - 44) div 65536)" "bytes ! 43 = of_nat ((len - 44) div 16777216)"
    using header_at [OF hdr, of 40] header_at [OF hdr, of 41] header_at [OF hdr, of 42]
      header_at [OF hdr, of 43] by (simp_all add: header_explicit)
  show "getUint16 bytes 20 = 1"
    by (simp add: getUint16_def b20)
  show "getUint16 bytes 22 = c"
    using read_u16 [OF c] by (simp add: getUint16_def b22)
  show "getUint32 bytes 24 = rate"
    using read_u32 [OF assms(4)] by (simp add: getUint32_def b24)
  show "getUint32 bytes 28 = rate * 2 * c"
    using read_u32 [OF assms(3)] by (simp add: getUint32_def b28)
  show "getUint16 bytes 32 = c * 2"
    using read_u16 [OF assms(2)] by (simp add: getUint16_def b32)
  show "getUint16 bytes 34 = 16"
    by (simp add: getUint16_def b34)
  show "getUint32 bytes 40 = len - 44"
    using read_u32 [OF assms(5)] by (simp add: getUint32_def b40)
  have "take 4 (drop 36 bytes) = take 4 (drop 36 (take 44 bytes))"
    by (simp add: drop_take)
  also have "\<dots> = [0x64, 0x61, 0x74, 0x61]"
    unfolding hdr header_explicit by simp
  finally show "take 4 (drop 36 bytes) = [0x64, 0x61, 0x74, 0x61]" .
qed

text \<open>
  Claim C5.  For a buffer of \<open>n\<close> frames in \<open>c\<close> channels, with values that fit the widths
  of the header fields, \<open>bufferToWav\<close> returns \<open>44 + n * c * 2\<close> bytes whose header holds
  format code 1, the channel count, the sample rate, the byte rate \<open>rate * c * 2\<close>, the
  block align \<open>c * 2\<close>, 16 bits per sample, and the tag \<open>data\<close> followed by the length
  \<open>n * c * 2\<close>.
\<close>

theorem wav_layout:
  assumes "0 < numberOfChannels b"
    and "numberOfChannels b * 2 < 65536"
    and "rate * 2 * numberOfChannels b < 4294967296"
    and "length_ab b * numberOfChannels b * 2 < 4294967296"
  shows "\<exists>bytes. bufferToWav b rate = Inr bytes
      \<and> length bytes = 44 + length_ab b * numberOfChannels b * 2
      \<and> getUint16 bytes 20 = 1
      \<and> getUint16 bytes 22 = numberOfChannels b
      \<and> getUint32 bytes 24 = rate
      \<and> getUint32 bytes 28 = rate * numberOfChannels b * 2
      \<and> getUint16 bytes 32 = numberOfChannels b * 2
      \<and> getUint16 bytes 34 = 16
      \<and> take 4 (drop 36 bytes) = [0x64, 0x61, 0x74, 0x61]
      \<and> getUint32 bytes 40 = length_ab b * numberOfChannels b * 2"
proof -
  let ?c = "numberOfChannels b"
  let ?len = "length_ab b * ?c * 2 + 44"
  from bufferToWav_ok [OF assms(1), of rate] obtain bytes where
    r: "bufferToWav b rate = Inr bytes"
    and l: "length bytes = 44 + length_ab b * ?c * 2"
    and h: "take 44 bytes = header_bytes ?c ?len rate"
    by blast
  have "1 \<le> 2 * ?c" using assms(1) by simp
  then have "rate * 1 \<le> rate * (2 * ?c)" by (rule mult_le_mono2)
  then have "rate \<le> rate * 2 * ?c" by (simp only: mult_1_right mult.assoc)
  then have rate: "rate < 4294967296" using assms(3) by (rule le_less_trans)
  have d: "?len - 44 < 4294967296" using assms(4) by simp
  note f = header_fields [OF h assms(2) assms(3) rate d]
  have "getUint32 bytes 28 = rate * ?c * 2" using f(4) by (simp add: mult.commute mult.left_commute)
  moreover have "getUint32 bytes 40 = length_ab b * ?c * 2" using f(7) by simp
  ultimately show ?thesis using r l f(1,2,3,5,6,8) by blast
qed

theorem wav_layout_witness:
  "\<exists>bytes. bufferToWav ramp 24000 = Inr bytes \<and> length bytes = 136
     \<and> getUint16 bytes 22 = 1 \<and> getUint32 bytes 24 = 24000 \<and> getUint32 bytes 28 = 48000
     \<and> getUint16 bytes 32 = 2 \<and> getUint32 bytes 40 = 92"
  using wav_layout [of ramp 24000] by (simp add: ramp_def) blast

text \<open>
  The frame index of the data loop is the position variable of the header writers, which
  stands at 44 when the loop starts.  A buffer of at most 44 frames therefore yields a data
  area of zeros, whatever its samples.
\<close>

lemma short_buffer_silent:
  assumes "0 < numberOfChannels b" and "length_ab b \<le> 44"
  shows "bufferToWav b rate
       = Inr (header_bytes (numberOfChannels b) (length_ab b * numberOfChannels b * 2 + 44) rate
              @ replicate (length_ab b * numberOfChannels b * 2) 0)"
  using assms writeHeader_fresh [of "numberOfChannels b" "length_ab b * numberOfChannels b * 2" rate]
  by (simp add: bufferToWav_def Let_def)

text \<open>
  Claim C4, at the sample \<open>-1/4\<close>.  The test that chooses the scale is
  \<open>0.5 + sample < 0\<close>, so this negative sample is scaled by 32767: the code writes
  \<open>-8191\<close> (bytes \<open>01 E0\<close>) where the encoding of the claim gives \<open>-8192\<close>.
\<close>

theorem scale_threshold:
  "encode_sample (- 1 / 4) = - 8191 \<and> spec_encodePCM16 (- 1 / 4) = - 8192
   \<and> setInt16 [0, 0] 0 (encode_sample (- 1 / 4)) = Inr [0x01, 0xE0]"
  by (simp add: encode_sample_def spec_encodePCM16_def to_int32_def trunc_def Let_def
      setInt16_def dataview_set_def le_bytes_2)

text \<open>Below \<open>-1/2\<close> and from 0 upwards the code and the claim's encoding agree.\<close>

lemma trunc_bounds:
  assumes "- 32768 \<le> y" and "y \<le> 32767"
  shows "- 32768 \<le> trunc y \<and> trunc y \<le> 32767"
  using assms unfolding trunc_def by (auto simp: le_floor_iff floor_le_iff) linarith+

lemma encode_agrees:
  assumes "x < - 1 / 2 \<or> 0 \<le> x"
  shows "encode_sample x = spec_encodePCM16 x"
proof -
  let ?s = "max (- 1) (min 1 x)"
  let ?y = "if ?s < 0 then ?s * 32768 else ?s * 32767"
  have same: "(1 / 2 + ?s < 0) = (?s < 0)" using assms by (auto simp: max_def min_def)
  have "- 1 \<le> ?s" "?s \<le> 1" by simp_all
  then have "- 32768 \<le> ?y \<and> ?y \<le> 32767" by auto
  then have "- 32768 \<le> trunc ?y \<and> trunc ?y \<le> 32767" using trunc_bounds by blast
  then have "to_int32 ?y = trunc ?y" by (simp add: to_int32_def)
  then show ?thesis by (simp add: encode_sample_def spec_encodePCM16_def Let_def same)
qed

section \<open>Properties of generate and stop\<close>

text \<open>Text of no-break spaces, line separators or byte order marks only is blank, and
  \<open>handleGenerate\<close> returns on it at once.\<close>

lemma blank_unicode_space: "blank [0x00A0, 0x2028, 0xFEFF, 0x0020]"
  by (simp add: blank_def is_space_def)

lemma generate_blank_noop: "blank inputText \<Longrightarrow> handleGenerate inputText s = (s, NoOp)"
  by (simp add: handleGenerate_def)

text \<open>
  Claim C8, against it.  With a pack that is not downloaded the call fails, and the state
  after it is not the state before it: the audio URL of the earlier render is gone.
\<close>

theorem offline_pack_missing_counterexample:
  "snd (handleGenerate sawubona zulu_offline) = Failed
   \<and> fst (handleGenerate sawubona zulu_offline) \<noteq> zulu_offline
   \<and> audioUrl zulu_offline = Some ''blob:earlier''
   \<and> audioUrl (fst (handleGenerate sawubona zulu_offline)) = None"
  by (simp add: handleGenerate_def handleOfflineGenerate_def failed_def zulu_offline_def init_tts_def
      INITIAL_OFFLINE_PACKS_def blank_def is_space_def sawubona_def Let_def)

text \<open>
  Claim C8, as amended.  An offline generate call on text that is not blank, for a language
  whose pack is found and not downloaded, fails with the message asking for the download
  and hands no utterance to the synthesizer.  It cancels the speech in progress, clears
  the audio URL, stores the message, and leaves \<open>loading\<close> and \<open>isPlaying\<close> false;
  nothing else changes.
\<close>

theorem offline_pack_missing:
  assumes "\<not> blank inputText" and "isOfflineMode s"
    and "find (\<lambda>p. language p = selectedLang s) (offlinePacks s) = Some pack"
    and "\<not> downloaded pack"
  shows "handleGenerate inputText s =
      (s\<lparr>loading := False,
         error := Some (''Please download the '' @ lang_name (selectedLang s) @ '' language pack first.''),
         audioUrl := None,
         isPlaying := False,
         speechSynthesis := speechSynthesis s @ [Cancel]\<rparr>, Failed)"
  using assms
  by (simp add: handleGenerate_def handleOfflineGenerate_def failed_def Let_def)

theorem offline_pack_missing_witness:
  "handleGenerate sawubona zulu_offline =
      (zulu_offline\<lparr>loading := False,
         error := Some ''Please download the isiZulu language pack first.'',
         audioUrl := None,
         isPlaying := False,
         speechSynthesis := [Cancel]\<rparr>, Failed)"
  using offline_pack_missing [of sawubona zulu_offline
      "\<lparr>id_pack = ''pack_zu'', language = ZULU, localeCode = ''zu-ZA'', size_pack = ''42 MB'', downloaded = False\<rparr>"]
  by (simp add: zulu_offline_def init_tts_def INITIAL_OFFLINE_PACKS_def blank_def is_space_def sawubona_def)

text \<open>
  Claim C9, against it.  An online generate call is in flight (\<open>loading\<close> is true);
  \<open>stopPlayback\<close> leaves \<open>loading\<close> as it is, so the render state is still Generating.
\<close>

theorem stop_while_generating_counterexample:
  "snd (handleGenerate sawubona (init_tts\<lparr>text_input := sawubona\<rparr>)) = AwaitingResponse
   \<and> renderState (fst (handleGenerate sawubona (init_tts\<lparr>text_input := sawubona\<rparr>))) = Generating
   \<and> renderState (stopPlayback (fst (handleGenerate sawubona (init_tts\<lparr>text_input := sawubona\<rparr>))))
       = Generating"
  by (simp add: handleGenerate_def init_tts_def blank_def is_space_def sawubona_def Let_def stopPlayback_def
      renderState_def)

text \<open>
  Claim C9, as amended.  From any state \<open>stopPlayback\<close> pauses the audio element and
  resets its position when there is one, cancels the local utterance and sets
  \<open>isPlaying\<close> to false.  It leaves \<open>loading\<close> and \<open>error\<close> alone, so the render state
  afterwards is Idle exactly when no call is in flight and no error is shown.
\<close>

theorem stop_effect:
  "stopPlayback s = s\<lparr>audioRef := map_option (\<lambda>a. a\<lparr>paused := True, currentTime := 0\<rparr>) (audioRef s),
                      speechSynthesis := speechSynthesis s @ [Cancel],
                      isPlaying := False\<rparr>
   \<and> \<not> isPlaying (stopPlayback s)
   \<and> loading (stopPlayback s) = loading s
   \<and> error (stopPlayback s) = error s
   \<and> (renderState (stopPlayback s) = Idle) = (\<not> loading s \<and> error s = None)"
  by (cases "audioRef s") (auto simp: stopPlayback_def renderState_def)

end
